theory Spec2Isabelle
  imports Main "HOL-Library.Product_Lexorder" "HOL-Library.Sublist" "HOL-Library.Char_ord"
    "HOL-Library.List_Lexorder"
begin

section \<open>Version heuristics of the image checker\<close>

text \<open>
  The definitions of this section embed \<^verbatim>\<open>scripts/check_compose_images.py\<close>.
  Tags are strings over the registry's tag alphabet (ASCII letters, digits, underscore,
  dot and hyphen), so the regular expression's \<^verbatim>\<open>\d\<close> is the ten ASCII digits.
  Python's \<^verbatim>\<open>int\<close> is unbounded: \<^typ>\<open>int\<close>. The interpreter's bound on the length of a
  digit string that \<^verbatim>\<open>int()\<close> converts (4300 digits by default) is far above the registry's
  bound of 128 characters on a tag and is not modelled.
\<close>

subsection \<open>The pattern \<^verbatim>\<open>^v?(\d+)(?:\.(\d+))?(?:\.(\d+))?$\<close>\<close>

definition is_digit :: "char \<Rightarrow> bool" where
  "is_digit c = (c \<in> set ''0123456789'')"

definition digit_value :: "char \<Rightarrow> int" where
  "digit_value c = int (of_char c) - 48"

text \<open>\<^verbatim>\<open>int(s)\<close> on a non-empty string of decimal digits.\<close>

definition py_int :: "string \<Rightarrow> int" where
  "py_int ds = foldl (\<lambda>a c. 10 * a + digit_value c) 0 ds"

text \<open>
  One optional group \<^verbatim>\<open>(?:\.(\d+))?\<close> at the head of the remaining input: the captured
  digits (or \<open>None\<close> when the group does not take part) and the input left.
\<close>

definition opt_group :: "string \<Rightarrow> string option \<times> string" where
  "opt_group r =
     (case r of
        [] \<Rightarrow> (None, r)
      | c # r' \<Rightarrow>
          if c = CHR ''.'' \<and> takeWhile is_digit r' \<noteq> []
          then (Some (takeWhile is_digit r'), dropWhile is_digit r')
          else (None, r))"

text \<open>
  \<^verbatim>\<open>SEMVER_RE.match(s)\<close>: the three groups of a match, or \<open>None\<close>. Without the
  MULTILINE flag \<^verbatim>\<open>$\<close> holds at the end of the string and just before a newline that
  ends the string.
\<close>

definition SEMVER_RE_match :: "string \<Rightarrow> (string \<times> string option \<times> string option) option" where
  "SEMVER_RE_match s =
     (let r0 = (if prefix ''v'' s then tl s else s);
          g1 = takeWhile is_digit r0;
          r1 = dropWhile is_digit r0
      in if g1 = [] then None
         else (case opt_group r1 of (g2, r2) \<Rightarrow>
               (case opt_group r2 of (g3, r3) \<Rightarrow>
                  if r3 = [] \<or> r3 = [CHR 0x0A] then Some (g1, g2, g3) else None)))"

subsection \<open>Splitting and parsing a tag\<close>

type_synonym semver = "int \<times> int \<times> int \<times> bool"

definition split_suffix :: "string \<Rightarrow> string \<times> string option" where
  "split_suffix tag =
     (if CHR ''-'' \<in> set tag \<and> \<not> prefix ''sha256:'' tag
      then (takeWhile (\<lambda>c. c \<noteq> CHR ''-'') tag,
            Some (tl (dropWhile (\<lambda>c. c \<noteq> CHR ''-'') tag)))
      else (tag, None))"

definition parse_semverish :: "string \<Rightarrow> semver option" where
  "parse_semverish s =
     (case SEMVER_RE_match s of
        None \<Rightarrow> None
      | Some (g1, g2, g3) \<Rightarrow>
          (let had_v = prefix ''v'' s;
               maj = py_int g1;
               minor = (case g2 of Some d \<Rightarrow> py_int d | None \<Rightarrow> - 1);
               patch = (case g3 of Some d \<Rightarrow> py_int d | None \<Rightarrow> - 1)
           in Some (maj, minor, patch, had_v)))"

fun semver_sort_key :: "semver \<Rightarrow> int \<times> int \<times> int" where
  "semver_sort_key (maj, minor, patch, _) = (maj, max minor 0, max patch 0)"

subsection \<open>Choosing the newer tag\<close>

type_synonym candidate = "string \<times> semver"

text \<open>The first loop of \<^verbatim>\<open>choose_newer_tag\<close>: the tags with the old suffix and a parsing base.\<close>

fun filter_candidates :: "string option \<Rightarrow> string list \<Rightarrow> candidate list" where
  "filter_candidates old_suffix [] = []"
| "filter_candidates old_suffix (t # ts) =
     (case split_suffix t of (b, sfx) \<Rightarrow>
        if old_suffix \<noteq> sfx then filter_candidates old_suffix ts
        else (case parse_semverish b of
                None \<Rightarrow> filter_candidates old_suffix ts
              | Some pv \<Rightarrow> (t, pv) # filter_candidates old_suffix ts))"

text \<open>The second loop: the lists \<^verbatim>\<open>preferred\<close> and \<^verbatim>\<open>fallback\<close>, in the order of the candidates.\<close>

fun partition_pools :: "int \<Rightarrow> int \<Rightarrow> candidate list \<Rightarrow> candidate list \<times> candidate list" where
  "partition_pools old_maj old_min [] = ([], [])"
| "partition_pools old_maj old_min ((t, pv) # cs) =
     (case partition_pools old_maj old_min cs of (preferred, fallback) \<Rightarrow>
        (case pv of (maj, minor, patch, _) \<Rightarrow>
           if maj \<noteq> old_maj then (preferred, fallback)
           else if old_min \<ge> 0 then
             (if minor = old_min then ((t, pv) # preferred, fallback)
              else (preferred, (t, pv) # fallback))
           else ((t, pv) # preferred, fallback)))"

text \<open>
  \<^verbatim>\<open>sorted(pool, key=...)\<close> is a stable sort, as \<^const>\<open>sort_key\<close> is; \<^verbatim>\<open>pool_sorted[-1]\<close>
  is read on a non-empty list only.
\<close>

definition choose_newer_tag :: "string \<Rightarrow> string list \<Rightarrow> string option \<times> string" where
  "choose_newer_tag old_tag all_tags =
     (if old_tag \<in> set [''latest'', ''stable'']
      then (None, [CHR 0x27] @ old_tag @ [CHR 0x27] @ '' is not a version tag'')
      else
        (case split_suffix old_tag of (old_base, old_suffix) \<Rightarrow>
           (case parse_semverish old_base of
              None \<Rightarrow> (None, ''tag not semver-like; no safe upgrade suggestion'')
            | Some old_v \<Rightarrow>
                (case old_v of (old_maj, old_min, old_pat, _) \<Rightarrow>
                   (let candidates = filter_candidates old_suffix all_tags in
                    if candidates = [] then (None, ''no semver-like candidate tags found'')
                    else
                      (case partition_pools old_maj old_min candidates of (preferred, fallback) \<Rightarrow>
                         (let pool = (if preferred \<noteq> [] then preferred else fallback) in
                          if pool = [] then (None, ''no newer tag found in same major'')
                          else
                            (let pool_sorted = sort_key (\<lambda>x. semver_sort_key (snd x)) pool in
                             (case last pool_sorted of (best_tag, best_v) \<Rightarrow>
                                if semver_sort_key best_v \<le> semver_sort_key old_v
                                then (None, ''already at newest matching tag'')
                                else (Some best_tag, ''newer version available''))))))))))"

section \<open>The entry point of the image checker\<close>

text \<open>
  The definitions of this section embed \<^verbatim>\<open>_split_image\<close>, \<^verbatim>\<open>normalize_image\<close>,
  \<^verbatim>\<open>find_compose_files\<close>, \<^verbatim>\<open>extract_images_from_compose_yaml\<close> and \<^verbatim>\<open>main\<close> of
  \<^verbatim>\<open>scripts/check_compose_images.py\<close>. What \<^verbatim>\<open>main\<close> prints is kept as a list of rows.
\<close>

subsection \<open>Image references\<close>

record ImageRef =
  raw :: string
  registry :: string
  repo :: string
  tag :: string
  normalized :: string






subsection \<open>The environment\<close>



text \<open>A value loaded by the YAML library: a string, a mapping, a sequence, or anything else.\<close>

datatype yaml = YStr string | YMap "(yaml \<times> yaml) list" | YSeq "yaml list" | YOther


subsection \<open>Finding the compose files and extracting the images\<close>










subsection \<open>The entry point\<close>










section \<open>The whitelist filter of the volume synchroniser\<close>

text \<open>
  The definitions of this section embed \<^verbatim>\<open>DockerVolumeSync.should_include_file\<close> of
  \<^verbatim>\<open>scripts/docker_volume_sync.py\<close>. The functions of the standard library it calls are
  parameters: \<^verbatim>\<open>fnmatch.fnmatch\<close>, and \<^verbatim>\<open>relative_to\<close> (which raises \<^verbatim>\<open>ValueError\<close> for a
  path outside the other) and \<^verbatim>\<open>str\<close> of the path type. The calls of the logger are left out.
\<close>

datatype path_error = ValueError string

record 'p library =
  fnmatch_fnmatch :: "string \<Rightarrow> string \<Rightarrow> bool"
  relative_to :: "'p \<Rightarrow> 'p \<Rightarrow> path_error + 'p"
  path_str :: "'p \<Rightarrow> string"

record DockerVolumeSync =
  dry_run :: bool
  verbose :: bool
  whitelist_file :: string
  whitelist_patterns :: "string \<rightharpoonup> (string \<rightharpoonup> string list)"

definition dict_get :: "('k \<rightharpoonup> 'v) \<Rightarrow> 'k \<Rightarrow> 'v \<Rightarrow> 'v" where
  "dict_get d k dflt = (case d k of None \<Rightarrow> dflt | Some v \<Rightarrow> v)"

definition matches_pattern :: "'p library \<Rightarrow> string \<Rightarrow> string \<Rightarrow> bool" where
  "matches_pattern lib file_path pattern = fnmatch_fnmatch lib file_path pattern"

fun first_match :: "'p library \<Rightarrow> string \<Rightarrow> string list \<Rightarrow> string option" where
  "first_match lib relative_str [] = None"
| "first_match lib relative_str (pattern # patterns) =
     (if matches_pattern lib relative_str pattern then Some pattern
      else first_match lib relative_str patterns)"

definition should_include_file ::
  "'p library \<Rightarrow> DockerVolumeSync \<Rightarrow> 'p \<Rightarrow> string \<Rightarrow> 'p \<Rightarrow> path_error + bool" where
  "should_include_file lib self file_path service volume_root =
     (case relative_to lib file_path volume_root of
        Inl e \<Rightarrow> Inl e
      | Inr relative_path \<Rightarrow>
          (let relative_str = path_str lib relative_path;
               patterns = dict_get (whitelist_patterns self) service Map.empty;
               include_patterns = dict_get patterns ''include'' [];
               exclude_patterns = dict_get patterns ''exclude'' []
           in (case first_match lib relative_str exclude_patterns of
                 Some pattern \<Rightarrow> Inr False
               | None \<Rightarrow>
                   (case first_match lib relative_str include_patterns of
                      Some pattern \<Rightarrow> Inr True
                    | None \<Rightarrow> Inr False))))"

section \<open>Notions used to state the properties\<close>

text \<open>
  The pair bound to \<^verbatim>\<open>best_tag, best_v\<close> when \<^verbatim>\<open>choose_newer_tag\<close> reaches the final
  comparison, together with the parsed old tag; \<open>None\<close> when it returns earlier.
\<close>

definition selected_candidate :: "string \<Rightarrow> string list \<Rightarrow> (semver \<times> candidate) option" where
  "selected_candidate old_tag all_tags =
     (if old_tag \<in> set [''latest'', ''stable''] then None
      else
        (case split_suffix old_tag of (old_base, old_suffix) \<Rightarrow>
           (case parse_semverish old_base of
              None \<Rightarrow> None
            | Some old_v \<Rightarrow>
                (case old_v of (old_maj, old_min, old_pat, _) \<Rightarrow>
                   (let candidates = filter_candidates old_suffix all_tags in
                    if candidates = [] then None
                    else
                      (case partition_pools old_maj old_min candidates of (preferred, fallback) \<Rightarrow>
                         (let pool = (if preferred \<noteq> [] then preferred else fallback) in
                          if pool = [] then None
                          else Some (old_v, last (sort_key (\<lambda>x. semver_sort_key (snd x)) pool)))))))))"

text \<open>The ranking key of a tag: the key of its parsed base.\<close>

definition tag_key :: "string \<Rightarrow> (int \<times> int \<times> int) option" where
  "tag_key t = map_option semver_sort_key (parse_semverish (fst (split_suffix t)))"

text \<open>The order on keys, written out: major first, then minor, then patch.\<close>

fun key_less :: "int \<times> int \<times> int \<Rightarrow> int \<times> int \<times> int \<Rightarrow> bool" where
  "key_less (a, b, c) (a', b', c') = (a < a' \<or> (a = a' \<and> (b < b' \<or> (b = b' \<and> c < c'))))"

text \<open>The suffix of a tag in the specification's words: what follows the first hyphen, if any.\<close>

definition hyphen_suffix :: "string \<Rightarrow> string option" where
  "hyphen_suffix t =
     (if CHR ''-'' \<in> set t then Some (tl (dropWhile (\<lambda>c. c \<noteq> CHR ''-'') t)) else None)"

text \<open>Membership of a candidate in the two pools, for an old tag with major \<open>M\<close> and minor \<open>m\<close>.\<close>

definition in_preferred :: "int \<Rightarrow> int \<Rightarrow> candidate \<Rightarrow> bool" where
  "in_preferred M m c = (case c of (t, maj, minor, patch, hv) \<Rightarrow> maj = M \<and> (m < 0 \<or> minor = m))"

definition in_fallback :: "int \<Rightarrow> int \<Rightarrow> candidate \<Rightarrow> bool" where
  "in_fallback M m c = (case c of (t, maj, minor, patch, hv) \<Rightarrow> maj = M \<and> 0 \<le> m \<and> minor \<noteq> m)"

text \<open>
  The old tag specifies a minor, and the tag \<open>t\<close> has the old tag's suffix, major and minor:
  \<open>t\<close> is a candidate that the second loop puts in the preferred pool by its minor.
\<close>

definition minor_match :: "string \<Rightarrow> string \<Rightarrow> bool" where
  "minor_match old t =
     (case parse_semverish (fst (split_suffix old)) of
        None \<Rightarrow> False
      | Some (M, m, p, hv) \<Rightarrow>
          0 \<le> m \<and> snd (split_suffix t) = snd (split_suffix old) \<and>
          (case parse_semverish (fst (split_suffix t)) of
             None \<Rightarrow> False
           | Some (maj, minor, patch, hv') \<Rightarrow> maj = M \<and> minor = m))"

text \<open>The part of \<^verbatim>\<open>choose_newer_tag\<close> after the first loop, with the pools as filters.\<close>

definition choose_from :: "semver \<Rightarrow> candidate list \<Rightarrow> string option \<times> string" where
  "choose_from old_v candidates =
     (if candidates = [] then (None, ''no semver-like candidate tags found'')
      else
        (let preferred = filter (in_preferred (fst old_v) (fst (snd old_v))) candidates;
             fallback = filter (in_fallback (fst old_v) (fst (snd old_v))) candidates;
             pool = (if preferred \<noteq> [] then preferred else fallback)
         in if pool = [] then (None, ''no newer tag found in same major'')
            else
              (let best = last (sort_key (\<lambda>x. semver_sort_key (snd x)) pool)
               in if semver_sort_key (snd best) \<le> semver_sort_key old_v
                  then (None, ''already at newest matching tag'')
                  else (Some (fst best), ''newer version available''))))"

text \<open>A non-empty string of decimal digits: what \<^verbatim>\<open>\d+\<close> matches.\<close>

definition all_digits :: "string \<Rightarrow> bool" where
  "all_digits ds = (ds \<noteq> [] \<and> list_all is_digit ds)"

text \<open>
  The tag \<open>t'\<close> is the tag \<open>t\<close>, or \<open>t\<close> with the letter v put before its leading digit.
\<close>

definition prefix_variant :: "string \<Rightarrow> string \<Rightarrow> bool" where
  "prefix_variant t t' = (t' = t \<or> (t \<noteq> [] \<and> is_digit (hd t) \<and> t' = CHR ''v'' # t))"

text \<open>A parsed version with its fourth component replaced.\<close>

definition set_had_v :: "bool \<Rightarrow> semver \<Rightarrow> semver" where
  "set_had_v f v = (fst v, fst (snd v), fst (snd (snd v)), f)"

text \<open>A candidate after its tag is renamed by \<open>g\<close>, the first three components kept.\<close>

definition variant_candidate :: "(string \<Rightarrow> string) \<Rightarrow> candidate \<Rightarrow> candidate" where
  "variant_candidate g c =
     (g (fst c), set_had_v (prefix ''v'' (fst (split_suffix (g (fst c))))) (snd c))"

text \<open>The include or exclude patterns of a service's rule.\<close>

definition rule_patterns :: "DockerVolumeSync \<Rightarrow> string \<Rightarrow> string \<Rightarrow> string list" where
  "rule_patterns self service key =
     dict_get (dict_get (whitelist_patterns self) service Map.empty) key []"

subsection \<open>Example inputs\<close>



text \<open>A library whose pattern match is equality or the pattern \<^verbatim>\<open>*\<close>, over paths as strings.\<close>

definition example_library :: "string library" where
  "example_library =
     \<lparr>fnmatch_fnmatch = (\<lambda>name pat. pat = ''*'' \<or> name = pat),
      relative_to = (\<lambda>p root. if prefix (root @ ''/'') p then Inr (drop (length root + 1) p)
                               else Inl (ValueError p)),
      path_str = (\<lambda>p. p)\<rparr>"

definition example_sync :: DockerVolumeSync where
  "example_sync =
     \<lparr>dry_run = True, verbose = False, whitelist_file = ''whitelist.toml'',
      whitelist_patterns =
        [''node-red'' \<mapsto> [''include'' \<mapsto> [''flows.json'', ''*''], ''exclude'' \<mapsto> [''flows_cred.json'']]]\<rparr>"

section \<open>Properties of the version heuristics\<close>

subsection \<open>The two loops and the selection\<close>

lemma filter_candidates_Cons:
  "filter_candidates sfx (t # ts) =
     (if snd (split_suffix t) = sfx
      then (case parse_semverish (fst (split_suffix t)) of
              None \<Rightarrow> filter_candidates sfx ts
            | Some pv \<Rightarrow> (t, pv) # filter_candidates sfx ts)
      else filter_candidates sfx ts)"
  by (cases "split_suffix t") auto

lemma filter_candidates_iff:
  "(t, pv) \<in> set (filter_candidates sfx ts) \<longleftrightarrow>
     t \<in> set ts \<and> snd (split_suffix t) = sfx \<and> parse_semverish (fst (split_suffix t)) = Some pv"
  by (induction ts)
    (auto simp: filter_candidates_Cons simp del: filter_candidates.simps(2) split: option.splits)

lemma partition_pools_filter:
  "partition_pools M m cs = (filter (in_preferred M m) cs, filter (in_fallback M m) cs)"
  by (induction cs) (auto simp: in_preferred_def in_fallback_def split: prod.splits)

lemma sort_key_not_Nil: "xs \<noteq> [] \<Longrightarrow> sort_key f xs \<noteq> []"
  by (metis length_0_conv length_sort)

lemma last_sort_key_in: "xs \<noteq> [] \<Longrightarrow> last (sort_key f xs) \<in> set xs"
  using last_in_set [OF sort_key_not_Nil, of xs f] by simp

lemma pool_subset:
  "set (if filter (in_preferred M m) cs \<noteq> [] then filter (in_preferred M m) cs
        else filter (in_fallback M m) cs)
     \<subseteq> {c \<in> set cs. fst (snd c) = M}"
  by (auto simp: in_preferred_def in_fallback_def)

lemma key_less_iff: "key_less k k' \<longleftrightarrow> k < k'"
  by (cases k; cases k') auto

lemma choose_newer_tag_choose_from:
  "choose_newer_tag old tags =
     (if old \<in> set [''latest'', ''stable'']
      then (None, [CHR 0x27] @ old @ [CHR 0x27] @ '' is not a version tag'')
      else (case parse_semverish (fst (split_suffix old)) of
              None \<Rightarrow> (None, ''tag not semver-like; no safe upgrade suggestion'')
            | Some old_v \<Rightarrow> choose_from old_v (filter_candidates (snd (split_suffix old)) tags)))"
  unfolding choose_newer_tag_def choose_from_def
  by (simp add: partition_pools_filter Let_def split: prod.splits option.splits)

lemma selected_candidate_eq:
  "selected_candidate old tags =
     (if old \<in> set [''latest'', ''stable''] then None
      else (case parse_semverish (fst (split_suffix old)) of
              None \<Rightarrow> None
            | Some old_v \<Rightarrow>
                (let cs = filter_candidates (snd (split_suffix old)) tags;
                     preferred = filter (in_preferred (fst old_v) (fst (snd old_v))) cs;
                     fallback = filter (in_fallback (fst old_v) (fst (snd old_v))) cs;
                     pool = (if preferred \<noteq> [] then preferred else fallback)
                 in if cs = [] \<or> pool = [] then None
                    else Some (old_v, last (sort_key (\<lambda>x. semver_sort_key (snd x)) pool)))))"
  unfolding selected_candidate_def
  by (simp add: partition_pools_filter Let_def split: prod.splits option.splits)

lemma choose_newer_tag_selected:
  assumes "selected_candidate old tags = Some (old_v, best_tag, best_v)"
  shows "choose_newer_tag old tags =
    (if semver_sort_key best_v \<le> semver_sort_key old_v
     then (None, ''already at newest matching tag'')
     else (Some best_tag, ''newer version available''))"
proof -
  from assms have nf: "old \<notin> set [''latest'', ''stable'']"
    by (auto simp: selected_candidate_eq)
  with assms have p: "parse_semverish (fst (split_suffix old)) = Some old_v"
    by (cases "parse_semverish (fst (split_suffix old))")
      (simp_all add: selected_candidate_eq Let_def split: if_splits)
  define cs where "cs = filter_candidates (snd (split_suffix old)) tags"
  define pool where "pool =
    (if filter (in_preferred (fst old_v) (fst (snd old_v))) cs \<noteq> []
     then filter (in_preferred (fst old_v) (fst (snd old_v))) cs
     else filter (in_fallback (fst old_v) (fst (snd old_v))) cs)"
  from assms nf p have s: "(if cs = [] \<or> pool = [] then None
      else Some (old_v, last (sort_key (\<lambda>x. semver_sort_key (snd x)) pool))) =
      Some (old_v, best_tag, best_v)"
    unfolding cs_def pool_def by (simp add: selected_candidate_eq Let_def)
  then have ne: "cs \<noteq> []" "pool \<noteq> []"
    by (auto split: if_splits)
  with s have b: "last (sort_key (\<lambda>x. semver_sort_key (snd x)) pool) = (best_tag, best_v)"
    by simp
  have "choose_newer_tag old tags = choose_from old_v cs"
    using nf p by (simp add: choose_newer_tag_choose_from cs_def)
  also have "\<dots> = (if semver_sort_key best_v \<le> semver_sort_key old_v
     then (None, ''already at newest matching tag'')
     else (Some best_tag, ''newer version available''))"
    using ne b unfolding choose_from_def pool_def [symmetric] Let_def by simp
  finally show ?thesis .
qed

text \<open>What a suggestion says about the old tag, the tag list and the suggested tag.\<close>

lemma choose_newer_tag_SomeD:
  assumes "choose_newer_tag old tags = (Some t, note)"
  shows "\<exists>old_v pv.
    parse_semverish (fst (split_suffix old)) = Some old_v \<and>
    t \<in> set tags \<and>
    snd (split_suffix t) = snd (split_suffix old) \<and>
    parse_semverish (fst (split_suffix t)) = Some pv \<and>
    fst pv = fst old_v \<and>
    semver_sort_key old_v < semver_sort_key pv \<and>
    note = ''newer version available''"
proof -
  obtain old_base old_suffix where ss: "split_suffix old = (old_base, old_suffix)"
    by (cases "split_suffix old")
  from assms ss obtain old_v where ov: "parse_semverish old_base = Some old_v"
    by (auto simp: choose_newer_tag_def split: if_splits option.splits)
  obtain M m p hv where ovt: "old_v = (M, m, p, hv)"
    by (cases old_v)
  define cs where "cs = filter_candidates old_suffix tags"
  define pool where "pool = (if filter (in_preferred M m) cs \<noteq> [] then filter (in_preferred M m) cs
      else filter (in_fallback M m) cs)"
  define best where "best = last (sort_key (\<lambda>x. semver_sort_key (snd x)) pool)"
  from assms ss ov ovt have ne: "pool \<noteq> []"
    and res: "\<not> semver_sort_key (snd best) \<le> semver_sort_key old_v"
    and t: "t = fst best" and n: "note = ''newer version available''"
    unfolding choose_newer_tag_def best_def pool_def cs_def
    by (auto simp: Let_def partition_pools_filter split: if_splits prod.splits)
  have "best \<in> set pool"
    unfolding best_def using ne by (rule last_sort_key_in)
  then have bc: "best \<in> set cs" and bm: "fst (snd best) = M"
    using pool_subset [of M m cs] unfolding pool_def by auto
  from bc t have "(t, snd best) \<in> set (filter_candidates old_suffix tags)"
    unfolding cs_def by simp
  then have "t \<in> set tags" "snd (split_suffix t) = old_suffix"
    "parse_semverish (fst (split_suffix t)) = Some (snd best)"
    by (simp_all add: filter_candidates_iff)
  with ss ov ovt bm res n show ?thesis
    by (auto simp: not_le)
qed

lemma parse_semverish_not_digest:
  assumes "prefix ''sha256:'' t"
  shows "parse_semverish t = None"
proof -
  from assms obtain r where "t = ''sha256:'' @ r"
    by (auto elim: prefixE)
  then show ?thesis
    by (simp add: parse_semverish_def SEMVER_RE_match_def is_digit_def)
qed

lemma split_suffix_hyphen_suffix:
  assumes "parse_semverish (fst (split_suffix t)) = Some pv"
  shows "snd (split_suffix t) = hyphen_suffix t"
proof (cases "prefix ''sha256:'' t")
  case True
  then have "split_suffix t = (t, None)"
    by (simp add: split_suffix_def)
  with assms True show ?thesis
    by (simp add: parse_semverish_not_digest)
next
  case False
  then show ?thesis
    by (simp add: split_suffix_def hyphen_suffix_def)
qed

subsection \<open>Floating tags\<close>

text \<open>
  C5. For every old tag in the set {latest, stable} and every list of candidate tags,
  \<^verbatim>\<open>choose_newer_tag\<close> returns no suggested tag, and the note says that the quoted old tag
  is not a version tag.
\<close>

theorem floating_tag_no_suggestion:
  assumes "old \<in> {''latest'', ''stable''}"
  shows "choose_newer_tag old tags =
    (None, [CHR 0x27] @ old @ [CHR 0x27] @ '' is not a version tag'')"
  using assms by (auto simp: choose_newer_tag_def)

theorem floating_tag_no_suggestion_witness:
  "''latest'' \<in> {''latest'', ''stable''} \<and>
   choose_newer_tag ''latest'' [''1.0'', ''2.0'', ''latest''] =
     (None, [CHR 0x27] @ ''latest'' @ [CHR 0x27] @ '' is not a version tag'') \<and>
   choose_newer_tag ''stable'' [''1.0'', ''2.0'', ''latest''] =
     (None, [CHR 0x27] @ ''stable'' @ [CHR 0x27] @ '' is not a version tag'')"
  using floating_tag_no_suggestion [of "''latest''" "[''1.0'', ''2.0'', ''latest'']"]
    floating_tag_no_suggestion [of "''stable''" "[''1.0'', ''2.0'', ''latest'']"]
  by simp

subsection \<open>The example of a patch upgrade\<close>

text \<open>
  C6. For the old tag v1.7.0 and the candidate list [v1.7.1, v1.8.0, v2.0.0],
  \<^verbatim>\<open>choose_newer_tag\<close> suggests v1.7.1: the preferred pool (major 1, minor 7) holds
  v1.7.1 only, and its key is strictly greater than the old tag's key.
\<close>

theorem example_v1_7_0:
  "choose_newer_tag ''v1.7.0'' [''v1.7.1'', ''v1.8.0'', ''v2.0.0''] =
     (Some ''v1.7.1'', ''newer version available'') \<and>
   fst (partition_pools 1 7 (filter_candidates None [''v1.7.1'', ''v1.8.0'', ''v2.0.0''])) =
     [(''v1.7.1'', (1, 7, 1, True))] \<and>
   parse_semverish ''v1.7.0'' = Some (1, 7, 0, True) \<and>
   key_less (semver_sort_key (1, 7, 0, True)) (semver_sort_key (1, 7, 1, True))"
  by code_simp

subsection \<open>The suffix of a suggestion\<close>

text \<open>
  C3. For every old tag and every list of candidate tags, a tag suggested by
  \<^verbatim>\<open>choose_newer_tag\<close> has the suffix of the old tag, both as \<^verbatim>\<open>split_suffix\<close> computes it
  and as the part after the first hyphen (absent when there is no hyphen); a candidate
  whose suffix differs from the old tag's is never suggested.
\<close>

theorem suggestion_keeps_suffix:
  "(\<forall>t msg. choose_newer_tag old tags = (Some t, msg) \<longrightarrow>
      snd (split_suffix t) = snd (split_suffix old) \<and> hyphen_suffix t = hyphen_suffix old) \<and>
   (\<forall>c \<in> set tags. hyphen_suffix c \<noteq> hyphen_suffix old \<longrightarrow>
      fst (choose_newer_tag old tags) \<noteq> Some c)"
proof -
  have a: "snd (split_suffix t) = snd (split_suffix old) \<and> hyphen_suffix t = hyphen_suffix old"
    if "choose_newer_tag old tags = (Some t, msg)" for t msg
  proof -
    from choose_newer_tag_SomeD [OF that] obtain old_v pv where
      "parse_semverish (fst (split_suffix old)) = Some old_v"
      "snd (split_suffix t) = snd (split_suffix old)"
      "parse_semverish (fst (split_suffix t)) = Some pv"
      by blast
    then show ?thesis
      by (simp add: split_suffix_hyphen_suffix [symmetric])
  qed
  have b: "fst (choose_newer_tag old tags) \<noteq> Some c"
    if "hyphen_suffix c \<noteq> hyphen_suffix old" for c
  proof
    assume "fst (choose_newer_tag old tags) = Some c"
    then have "choose_newer_tag old tags = (Some c, snd (choose_newer_tag old tags))"
      by (metis prod.collapse)
    from a [OF this] that show False by simp
  qed
  from a b show ?thesis by blast
qed

theorem suggestion_keeps_suffix_witness:
  "choose_newer_tag ''2.7-alpine'' [''2.7.1'', ''2.7.2-alpine'', ''2.8-alpine'', ''2.7.3-slim''] =
     (Some ''2.7.2-alpine'', ''newer version available'') \<and>
   hyphen_suffix ''2.7.2-alpine'' = hyphen_suffix ''2.7-alpine'' \<and>
   hyphen_suffix ''2.7-alpine'' = Some ''alpine'' \<and>
   ''2.7.3-slim'' \<in> set [''2.7.1'', ''2.7.2-alpine'', ''2.8-alpine'', ''2.7.3-slim''] \<and>
   hyphen_suffix ''2.7.3-slim'' \<noteq> hyphen_suffix ''2.7-alpine'' \<and>
   fst (choose_newer_tag ''2.7-alpine'' [''2.7.1'', ''2.7.2-alpine'', ''2.8-alpine'', ''2.7.3-slim''])
     \<noteq> Some ''2.7.3-slim''"
proof -
  let ?tags = "[''2.7.1'', ''2.7.2-alpine'', ''2.8-alpine'', ''2.7.3-slim'']"
  have r: "choose_newer_tag ''2.7-alpine'' ?tags = (Some ''2.7.2-alpine'', ''newer version available'')"
    by code_simp
  have m: "''2.7.3-slim'' \<in> set ?tags" by simp
  have d: "hyphen_suffix ''2.7.3-slim'' \<noteq> hyphen_suffix ''2.7-alpine''"
    by (simp add: hyphen_suffix_def)
  have s: "hyphen_suffix ''2.7-alpine'' = Some ''alpine''"
    by (simp add: hyphen_suffix_def)
  note inst = suggestion_keeps_suffix [of "''2.7-alpine''" ?tags]
  from inst r have e: "hyphen_suffix ''2.7.2-alpine'' = hyphen_suffix ''2.7-alpine''"
    by blast
  from inst m d have n: "fst (choose_newer_tag ''2.7-alpine'' ?tags) \<noteq> Some ''2.7.3-slim''"
    by blast
  from r e s m d n show ?thesis by blast
qed

subsection \<open>A suggestion is a listed tag of the same major version\<close>

text \<open>
  C9. For every old tag and every list of candidate tags, a tag that \<^verbatim>\<open>choose_newer_tag\<close>
  suggests is an element of the list, and its base parses with the major number of the old
  tag's base: no tag is made up and no major-version boundary is crossed.
\<close>

theorem suggestion_from_list_same_major:
  assumes "choose_newer_tag old tags = (Some t, msg)"
  shows "t \<in> set tags \<and>
    (\<exists>old_v pv. parse_semverish (fst (split_suffix old)) = Some old_v \<and>
       parse_semverish (fst (split_suffix t)) = Some pv \<and> fst pv = fst old_v)"
  using choose_newer_tag_SomeD [OF assms] by blast

theorem suggestion_from_list_same_major_witness:
  "choose_newer_tag ''3.1'' [''4.0'', ''3.2'', ''3.1.5'', ''3.1.4'', ''2.9''] =
     (Some ''3.1.5'', ''newer version available'') \<and>
   ''3.1.5'' \<in> set [''4.0'', ''3.2'', ''3.1.5'', ''3.1.4'', ''2.9''] \<and>
   (\<exists>old_v pv. parse_semverish (fst (split_suffix ''3.1'')) = Some old_v \<and>
       parse_semverish (fst (split_suffix ''3.1.5'')) = Some pv \<and> fst pv = fst old_v) \<and>
   parse_semverish (fst (split_suffix ''3.1'')) = Some (3, 1, - 1, False) \<and>
   parse_semverish (fst (split_suffix ''3.1.5'')) = Some (3, 1, 5, False)"
proof -
  have r: "choose_newer_tag ''3.1'' [''4.0'', ''3.2'', ''3.1.5'', ''3.1.4'', ''2.9''] =
     (Some ''3.1.5'', ''newer version available'')"
    by code_simp
  have p: "parse_semverish (fst (split_suffix ''3.1'')) = Some (3, 1, - 1, False)"
    "parse_semverish (fst (split_suffix ''3.1.5'')) = Some (3, 1, 5, False)"
    by code_simp+
  from suggestion_from_list_same_major [OF r] r p show ?thesis by blast
qed

subsection \<open>A suggestion is strictly newer\<close>

text \<open>
  C2. For every old tag and every list of candidate tags: a tag that \<^verbatim>\<open>choose_newer_tag\<close>
  suggests has a key (major, minor or 0, patch or 0) strictly greater than the old tag's key;
  when the key of the selected candidate is not strictly greater, there is no suggestion and
  the note says that the tag is already the newest matching one; when it is strictly greater,
  the selected tag is suggested.
\<close>

theorem suggestion_strictly_newer:
  "(\<forall>t msg. choose_newer_tag old tags = (Some t, msg) \<longrightarrow>
      (\<exists>ko kt. tag_key old = Some ko \<and> tag_key t = Some kt \<and> key_less ko kt)) \<and>
   (\<forall>old_v best_tag best_v.
      selected_candidate old tags = Some (old_v, best_tag, best_v) \<and>
      \<not> key_less (semver_sort_key old_v) (semver_sort_key best_v) \<longrightarrow>
      choose_newer_tag old tags = (None, ''already at newest matching tag'')) \<and>
   (\<forall>old_v best_tag best_v.
      selected_candidate old tags = Some (old_v, best_tag, best_v) \<and>
      key_less (semver_sort_key old_v) (semver_sort_key best_v) \<longrightarrow>
      choose_newer_tag old tags = (Some best_tag, ''newer version available''))"
proof (intro conjI allI impI)
  fix t msg
  assume "choose_newer_tag old tags = (Some t, msg)"
  from choose_newer_tag_SomeD [OF this]
  show "\<exists>ko kt. tag_key old = Some ko \<and> tag_key t = Some kt \<and> key_less ko kt"
    by (auto simp: tag_key_def key_less_iff)
next
  fix old_v best_tag best_v
  assume "selected_candidate old tags = Some (old_v, best_tag, best_v) \<and>
      \<not> key_less (semver_sort_key old_v) (semver_sort_key best_v)"
  then have "selected_candidate old tags = Some (old_v, best_tag, best_v)"
    and "semver_sort_key best_v \<le> semver_sort_key old_v"
    by (simp_all add: key_less_iff not_less)
  then show "choose_newer_tag old tags = (None, ''already at newest matching tag'')"
    by (simp add: choose_newer_tag_selected)
next
  fix old_v best_tag best_v
  assume "selected_candidate old tags = Some (old_v, best_tag, best_v) \<and>
      key_less (semver_sort_key old_v) (semver_sort_key best_v)"
  then have "selected_candidate old tags = Some (old_v, best_tag, best_v)"
    and "\<not> semver_sort_key best_v \<le> semver_sort_key old_v"
    by (simp_all add: key_less_iff not_le)
  then show "choose_newer_tag old tags = (Some best_tag, ''newer version available'')"
    by (simp add: choose_newer_tag_selected)
qed

theorem suggestion_strictly_newer_witness:
  "choose_newer_tag ''v1.7.0'' [''v1.7.1'', ''v1.8.0'', ''v2.0.0''] =
     (Some ''v1.7.1'', ''newer version available'') \<and>
   (\<exists>ko kt. tag_key ''v1.7.0'' = Some ko \<and> tag_key ''v1.7.1'' = Some kt \<and> key_less ko kt) \<and>
   tag_key ''v1.7.0'' = Some (1, 7, 0) \<and> tag_key ''v1.7.1'' = Some (1, 7, 1) \<and>
   selected_candidate ''2.7'' [''2.6'', ''2.7'', ''2.8'', ''2.9-alpine''] =
     Some ((2, 7, - 1, False), ''2.7'', (2, 7, - 1, False)) \<and>
   \<not> key_less (semver_sort_key (2, 7, - 1, False)) (semver_sort_key (2, 7, - 1, False)) \<and>
   choose_newer_tag ''2.7'' [''2.6'', ''2.7'', ''2.8'', ''2.9-alpine''] =
     (None, ''already at newest matching tag'')"
proof -
  have r: "choose_newer_tag ''v1.7.0'' [''v1.7.1'', ''v1.8.0'', ''v2.0.0''] =
     (Some ''v1.7.1'', ''newer version available'')"
    by code_simp
  have k: "tag_key ''v1.7.0'' = Some (1, 7, 0)" "tag_key ''v1.7.1'' = Some (1, 7, 1)"
    by code_simp+
  have s: "selected_candidate ''2.7'' [''2.6'', ''2.7'', ''2.8'', ''2.9-alpine''] =
     Some ((2, 7, - 1, False), ''2.7'', (2, 7, - 1, False))"
    by code_simp
  have n: "\<not> key_less (semver_sort_key (2, 7, - 1, False)) (semver_sort_key (2, 7, - 1, False))"
    by simp
  note inst1 = suggestion_strictly_newer [of "''v1.7.0''" "[''v1.7.1'', ''v1.8.0'', ''v2.0.0'']"]
  note inst2 = suggestion_strictly_newer [of "''2.7''" "[''2.6'', ''2.7'', ''2.8'', ''2.9-alpine'']"]
  from inst1 r
  have a: "\<exists>ko kt. tag_key ''v1.7.0'' = Some ko \<and> tag_key ''v1.7.1'' = Some kt \<and> key_less ko kt"
    by blast
  from inst2 s n
  have b: "choose_newer_tag ''2.7'' [''2.6'', ''2.7'', ''2.8'', ''2.9-alpine''] =
     (None, ''already at newest matching tag'')"
    by blast
  from r a k s n b show ?thesis
    by (intro conjI)
qed

subsection \<open>The preferred pool has priority\<close>

lemma filter_candidates_filter:
  "filter_candidates sfx (filter Q ts) = filter (\<lambda>c. Q (fst c)) (filter_candidates sfx ts)"
  by (induction ts)
    (auto simp: filter_candidates_Cons simp del: filter_candidates.simps(2) split: option.splits)

lemma minor_match_in_preferred:
  assumes "parse_semverish (fst (split_suffix old)) = Some (M, m, p, hv)" "0 \<le> m"
    and "c \<in> set (filter_candidates (snd (split_suffix old)) ts)"
  shows "minor_match old (fst c) \<longleftrightarrow> in_preferred M m c"
proof -
  obtain t maj minor patch hv' where c: "c = (t, maj, minor, patch, hv')"
    by (cases c)
  with assms(3) have "snd (split_suffix t) = snd (split_suffix old)"
    "parse_semverish (fst (split_suffix t)) = Some (maj, minor, patch, hv')"
    by (simp_all add: filter_candidates_iff)
  with assms(1,2) c show ?thesis
    by (simp add: minor_match_def in_preferred_def)
qed

lemma choose_from_preferred:
  assumes "filter (in_preferred (fst old_v) (fst (snd old_v))) cs \<noteq> []"
  shows "choose_from old_v cs = choose_from old_v (filter (in_preferred (fst old_v) (fst (snd old_v))) cs)"
proof -
  from assms have "cs \<noteq> []" by auto
  with assms show ?thesis
    by (simp add: choose_from_def)
qed

lemma choose_newer_tag_preferred_only:
  assumes "filter (minor_match old) tags \<noteq> []"
  shows "choose_newer_tag old tags = choose_newer_tag old (filter (minor_match old) tags)"
proof -
  from assms obtain t0 where t0: "t0 \<in> set tags" "minor_match old t0"
    by (metis filter_False)
  then obtain M m p hv where ov: "parse_semverish (fst (split_suffix old)) = Some (M, m, p, hv)"
    and m: "0 \<le> m"
    by (auto simp: minor_match_def split: option.splits)
  define cs where "cs = filter_candidates (snd (split_suffix old)) tags"
  define cs' where "cs' = filter_candidates (snd (split_suffix old)) (filter (minor_match old) tags)"
  have eq: "cs' = filter (in_preferred M m) cs"
    unfolding cs'_def cs_def filter_candidates_filter
    by (rule filter_cong [OF refl]) (use minor_match_in_preferred [OF ov m] in auto)
  from t0 ov obtain pv0 where "(t0, pv0) \<in> set cs"
    by (auto simp: cs_def filter_candidates_iff minor_match_def split: option.splits)
  moreover from this t0(2) have "in_preferred M m (t0, pv0)"
    using minor_match_in_preferred [OF ov m, of "(t0, pv0)" tags] by (simp add: cs_def)
  ultimately have ne: "filter (in_preferred M m) cs \<noteq> []"
    by (auto simp: filter_empty_conv)
  have "choose_from (M, m, p, hv) cs = choose_from (M, m, p, hv) cs'"
    unfolding eq using choose_from_preferred [of "(M, m, p, hv)" cs] ne by simp
  then show ?thesis
    using ov by (simp add: choose_newer_tag_choose_from cs_def cs'_def)
qed

text \<open>
  C1. For the old tag 2.7 and the candidates 2.6, 2.7, 2.8 and 2.9-alpine,
  \<^verbatim>\<open>choose_newer_tag\<close> returns no suggestion and the note that the tag is already the newest
  matching one. In general, when the old tag specifies a minor and some candidate of the
  same suffix and major has that minor, the result depends on the candidates of that minor
  only: two tag lists with the same such candidates give the same result, whatever other
  tags of the same major they hold and whether or not a candidate of that minor is newer.
\<close>

theorem preferred_pool_only:
  "choose_newer_tag ''2.7'' [''2.6'', ''2.7'', ''2.8'', ''2.9-alpine''] =
     (None, ''already at newest matching tag'') \<and>
   (\<forall>old tags tags'.
      filter (minor_match old) tags \<noteq> [] \<and>
      filter (minor_match old) tags' = filter (minor_match old) tags \<longrightarrow>
      choose_newer_tag old tags' = choose_newer_tag old tags)"
proof -
  have "choose_newer_tag ''2.7'' [''2.6'', ''2.7'', ''2.8'', ''2.9-alpine''] =
     (None, ''already at newest matching tag'')"
    by code_simp
  moreover have "choose_newer_tag old tags' = choose_newer_tag old tags"
    if "filter (minor_match old) tags \<noteq> []"
      "filter (minor_match old) tags' = filter (minor_match old) tags" for old tags tags'
    using that choose_newer_tag_preferred_only [of old tags]
      choose_newer_tag_preferred_only [of old tags'] by simp
  ultimately show ?thesis by blast
qed

theorem preferred_pool_only_witness:
  "filter (minor_match ''2.7'') [''2.6'', ''2.7'', ''2.8'', ''2.9-alpine''] = [''2.7''] \<and>
   filter (minor_match ''2.7'') [''2.7'', ''2.9'', ''2.10.4''] = [''2.7''] \<and>
   choose_newer_tag ''2.7'' [''2.7'', ''2.9'', ''2.10.4''] =
     choose_newer_tag ''2.7'' [''2.6'', ''2.7'', ''2.8'', ''2.9-alpine''] \<and>
   choose_newer_tag ''2.7'' [''2.7'', ''2.9'', ''2.10.4''] = (None, ''already at newest matching tag'')"
proof -
  have f: "filter (minor_match ''2.7'') [''2.6'', ''2.7'', ''2.8'', ''2.9-alpine''] = [''2.7'']"
    "filter (minor_match ''2.7'') [''2.7'', ''2.9'', ''2.10.4''] = [''2.7'']"
    by code_simp+
  from preferred_pool_only f
  have "choose_newer_tag ''2.7'' [''2.7'', ''2.9'', ''2.10.4''] =
     choose_newer_tag ''2.7'' [''2.6'', ''2.7'', ''2.8'', ''2.9-alpine'']"
    by (metis list.distinct(1))
  with preferred_pool_only f show ?thesis by simp
qed

subsection \<open>Absent components\<close>

lemma span_digits:
  assumes "list_all is_digit a" "r = [] \<or> \<not> is_digit (hd r)"
  shows "takeWhile is_digit (a @ r) = a" and "dropWhile is_digit (a @ r) = r"
proof -
  from assms(1) have "\<And>x. x \<in> set a \<Longrightarrow> is_digit x"
    by (simp add: list_all_iff)
  then have "takeWhile is_digit (a @ r) = a @ takeWhile is_digit r"
    and "dropWhile is_digit (a @ r) = dropWhile is_digit r"
    by (simp_all add: takeWhile_append2 dropWhile_append2)
  moreover from assms(2) have "takeWhile is_digit r = []" "dropWhile is_digit r = r"
    by (cases r; simp)+
  ultimately show "takeWhile is_digit (a @ r) = a" and "dropWhile is_digit (a @ r) = r"
    by simp_all
qed

lemma dot_not_digit: "\<not> is_digit CHR ''.''"
  by (simp add: is_digit_def)

lemma opt_group_Nil: "opt_group [] = (None, [])"
  by (simp add: opt_group_def)

lemma opt_group_digits:
  assumes "all_digits b" "r = [] \<or> \<not> is_digit (hd r)"
  shows "opt_group (CHR ''.'' # b @ r) = (Some b, r)"
proof -
  from assms(1) have "list_all is_digit b" "b \<noteq> []"
    by (simp_all add: all_digits_def)
  with span_digits [OF this(1) assms(2)] show ?thesis
    by (simp add: opt_group_def)
qed

lemma not_prefix_v_digits: "all_digits a \<Longrightarrow> \<not> prefix ''v'' (a @ r)"
  by (cases a) (auto simp: all_digits_def is_digit_def)

lemma had_v_forms:
  assumes "p = [] \<or> p = ''v''" "all_digits a"
  shows "prefix ''v'' (p @ a @ r) \<longleftrightarrow> p = ''v''"
  using assms(1) not_prefix_v_digits [OF assms(2), of r] by auto

lemma SEMVER_RE_match_digits:
  assumes "p = [] \<or> p = ''v''" "all_digits a" "r = [] \<or> \<not> is_digit (hd r)"
  shows "SEMVER_RE_match (p @ a @ r) =
    (case opt_group r of (g2, r2) \<Rightarrow>
       (case opt_group r2 of (g3, r3) \<Rightarrow>
          if r3 = [] \<or> r3 = [CHR 0x0A] then Some (a, g2, g3) else None))"
proof -
  have r0: "(if prefix ''v'' (p @ a @ r) then tl (p @ a @ r) else p @ a @ r) = a @ r"
    using assms(1) not_prefix_v_digits [OF assms(2), of r] by auto
  from assms(2) have la: "list_all is_digit a" and ne: "a \<noteq> []"
    by (simp_all add: all_digits_def)
  show ?thesis
    unfolding SEMVER_RE_match_def Let_def r0 span_digits [OF la assms(3)]
    using ne by simp
qed

lemma SEMVER_RE_match_forms:
  assumes "p = [] \<or> p = ''v''" "all_digits a" "all_digits b" "all_digits c"
  shows "SEMVER_RE_match (p @ a) = Some (a, None, None)"
    and "SEMVER_RE_match (p @ a @ ''.'' @ b) = Some (a, Some b, None)"
    and "SEMVER_RE_match (p @ a @ ''.'' @ b @ ''.'' @ c) = Some (a, Some b, Some c)"
proof -
  show "SEMVER_RE_match (p @ a) = Some (a, None, None)"
    using SEMVER_RE_match_digits [OF assms(1,2), of "[]"]
    by (simp add: opt_group_Nil)
  show "SEMVER_RE_match (p @ a @ ''.'' @ b) = Some (a, Some b, None)"
    using SEMVER_RE_match_digits [OF assms(1,2), of "''.'' @ b"]
      opt_group_digits [OF assms(3), of "[]"]
    by (simp add: opt_group_Nil dot_not_digit)
  show "SEMVER_RE_match (p @ a @ ''.'' @ b @ ''.'' @ c) = Some (a, Some b, Some c)"
    using SEMVER_RE_match_digits [OF assms(1,2), of "''.'' @ b @ ''.'' @ c"]
      opt_group_digits [OF assms(3), of "''.'' @ c"] opt_group_digits [OF assms(4), of "[]"]
    by (simp add: opt_group_Nil dot_not_digit)
qed

lemma digit_value_nonneg: "is_digit c \<Longrightarrow> 0 \<le> digit_value c"
  by (auto simp: is_digit_def digit_value_def)

lemma foldl_digits_nonneg:
  "list_all is_digit ds \<Longrightarrow> 0 \<le> n \<Longrightarrow> 0 \<le> foldl (\<lambda>a c. 10 * a + digit_value c) n ds"
  by (induction ds arbitrary: n) (auto simp: digit_value_nonneg)

lemma py_int_nonneg: "all_digits ds \<Longrightarrow> 0 \<le> py_int ds"
  by (simp add: py_int_def all_digits_def foldl_digits_nonneg)

text \<open>
  C7. For every base of the form v?MAJOR(.MINOR)?(.PATCH)?, \<^verbatim>\<open>parse_semverish\<close> gives -1 for
  an absent minor or patch and the number for a present one, and \<^verbatim>\<open>semver_sort_key\<close> maps
  the absent components to 0 and keeps the present ones; the base 2 parses as (2, -1, -1)
  and ranks as (2, 0, 0).
\<close>

theorem absent_components:
  assumes "p = [] \<or> p = ''v''" "all_digits a" "all_digits b" "all_digits c"
  shows "parse_semverish (p @ a) = Some (py_int a, - 1, - 1, p = ''v'') \<and>
    semver_sort_key (py_int a, - 1, - 1, p = ''v'') = (py_int a, 0, 0) \<and>
    parse_semverish (p @ a @ ''.'' @ b) = Some (py_int a, py_int b, - 1, p = ''v'') \<and>
    semver_sort_key (py_int a, py_int b, - 1, p = ''v'') = (py_int a, py_int b, 0) \<and>
    parse_semverish (p @ a @ ''.'' @ b @ ''.'' @ c) = Some (py_int a, py_int b, py_int c, p = ''v'') \<and>
    semver_sort_key (py_int a, py_int b, py_int c, p = ''v'') = (py_int a, py_int b, py_int c) \<and>
    parse_semverish ''2'' = Some (2, - 1, - 1, False) \<and>
    semver_sort_key (2, - 1, - 1, False) = (2, 0, 0)"
proof -
  note m = SEMVER_RE_match_forms [OF assms]
  have hv: "prefix ''v'' (p @ a) \<longleftrightarrow> p = ''v''"
    "prefix ''v'' (p @ a @ ''.'' @ b) \<longleftrightarrow> p = ''v''"
    "prefix ''v'' (p @ a @ ''.'' @ b @ ''.'' @ c) \<longleftrightarrow> p = ''v''"
    using had_v_forms [OF assms(1,2), of "[]"] had_v_forms [OF assms(1,2), of "''.'' @ b"]
      had_v_forms [OF assms(1,2), of "''.'' @ b @ ''.'' @ c"] by simp_all
  have 1: "parse_semverish (p @ a) = Some (py_int a, - 1, - 1, p = ''v'')"
    unfolding parse_semverish_def m(1) using hv(1) by simp
  have 2: "parse_semverish (p @ a @ ''.'' @ b) = Some (py_int a, py_int b, - 1, p = ''v'')"
    unfolding parse_semverish_def m(2) using hv(2) by simp
  have 3: "parse_semverish (p @ a @ ''.'' @ b @ ''.'' @ c) = Some (py_int a, py_int b, py_int c, p = ''v'')"
    unfolding parse_semverish_def m(3) using hv(3) by simp
  have 4: "parse_semverish ''2'' = Some (2, - 1, - 1, False)"
    by code_simp
  from 1 2 3 4 py_int_nonneg [OF assms(3)] py_int_nonneg [OF assms(4)]
  show ?thesis by simp
qed

theorem absent_components_witness:
  "all_digits ''12'' \<and> all_digits ''034'' \<and> all_digits ''5'' \<and>
   parse_semverish ''v12'' = Some (12, - 1, - 1, True) \<and>
   semver_sort_key (12, - 1, - 1, True) = (12, 0, 0) \<and>
   parse_semverish ''v12.034'' = Some (12, 34, - 1, True) \<and>
   semver_sort_key (12, 34, - 1, True) = (12, 34, 0) \<and>
   parse_semverish ''v12.034.5'' = Some (12, 34, 5, True) \<and>
   semver_sort_key (12, 34, 5, True) = (12, 34, 5)"
proof -
  have d: "all_digits ''12''" "all_digits ''034''" "all_digits ''5''"
    by (simp_all add: all_digits_def is_digit_def)
  have i: "py_int ''12'' = 12" "py_int ''034'' = 34" "py_int ''5'' = 5"
    by (simp_all add: py_int_def digit_value_def)
  from absent_components [of "''v''" "''12''" "''034''" "''5''", OF _ d] d i
  show ?thesis by simp
qed

subsection \<open>The prefix flag is not used\<close>

lemma hyphen_not_digit: "\<not> is_digit CHR ''-''"
  by (simp add: is_digit_def)

lemma split_suffix_v:
  assumes "is_digit d"
  shows "split_suffix (CHR ''v'' # d # r) =
    (CHR ''v'' # fst (split_suffix (d # r)), snd (split_suffix (d # r)))"
    and "\<exists>r'. fst (split_suffix (d # r)) = d # r'"
  using assms by (auto simp: split_suffix_def is_digit_def)

lemma parse_semverish_had_v:
  "parse_semverish s = Some v \<Longrightarrow> snd (snd (snd v)) = prefix ''v'' s"
  by (auto simp: parse_semverish_def Let_def split: option.splits prod.splits)

lemma parse_semverish_v:
  assumes "is_digit d"
  shows "parse_semverish (CHR ''v'' # d # r) = map_option (set_had_v True) (parse_semverish (d # r))"
proof -
  from assms have "d \<noteq> CHR ''v''"
    by (auto simp: is_digit_def)
  then have "SEMVER_RE_match (CHR ''v'' # d # r) = SEMVER_RE_match (d # r)"
    by (simp add: SEMVER_RE_match_def)
  then show ?thesis
    by (simp add: parse_semverish_def set_had_v_def Let_def split: option.splits prod.splits)
qed

lemma prefix_variant_suffix:
  assumes "prefix_variant t t'"
  shows "snd (split_suffix t') = snd (split_suffix t)"
proof (cases "t' = t")
  case False
  with assms obtain d r where "t = d # r" "is_digit d" "t' = CHR ''v'' # d # r"
    by (cases t) (auto simp: prefix_variant_def)
  then show ?thesis
    by (simp add: split_suffix_v(1))
qed simp

lemma prefix_variant_parse:
  assumes "prefix_variant t t'"
  shows "parse_semverish (fst (split_suffix t')) =
    map_option (set_had_v (prefix ''v'' (fst (split_suffix t')))) (parse_semverish (fst (split_suffix t)))"
proof (cases "t' = t")
  case True
  show ?thesis
  proof (cases "parse_semverish (fst (split_suffix t))")
    case (Some v)
    with parse_semverish_had_v [OF Some] True show ?thesis
      by (cases v) (simp add: set_had_v_def)
  qed (simp add: True)
next
  case False
  with assms obtain d r where t: "t = d # r" "is_digit d" "t' = CHR ''v'' # d # r"
    by (cases t) (auto simp: prefix_variant_def)
  from split_suffix_v(2) [OF t(2), of r] obtain r' where "fst (split_suffix (d # r)) = d # r'"
    by blast
  with t show ?thesis
    by (simp add: split_suffix_v(1) parse_semverish_v)
qed

lemma filter_candidates_map:
  assumes "\<And>t. prefix_variant t (g t)"
  shows "filter_candidates sfx (map g ts) = map (variant_candidate g) (filter_candidates sfx ts)"
  by (induction ts)
    (simp_all add: filter_candidates_Cons prefix_variant_suffix [OF assms] prefix_variant_parse [OF assms]
      variant_candidate_def del: filter_candidates.simps(2) split: option.splits)

lemma insort_key_map:
  assumes "\<And>x. k (h x) = k x"
  shows "insort_key k (h x) (map h xs) = map h (insort_key k x xs)"
  by (induction xs) (simp_all add: assms)

lemma sort_key_map:
  assumes "\<And>x. k (h x) = k x"
  shows "sort_key k (map h xs) = map h (sort_key k xs)"
  by (induction xs) (simp_all add: insort_key_map [of k h, OF assms])

lemma in_pools_set_had_v:
  "in_preferred M m (t', set_had_v f (snd c)) = in_preferred M m c"
  "in_fallback M m (t', set_had_v f (snd c)) = in_fallback M m c"
  "semver_sort_key (set_had_v f v) = semver_sort_key v"
  by (cases c; cases v; simp add: in_preferred_def in_fallback_def set_had_v_def)+

lemma choose_from_map:
  "choose_from old_v (map (variant_candidate g) cs) =
     (map_option g (fst (choose_from old_v cs)), snd (choose_from old_v cs))"
proof -
  let ?h = "variant_candidate g"
  let ?k = "\<lambda>x. semver_sort_key (snd x)"
  have k: "?k (?h x) = ?k x" for x
    by (simp add: variant_candidate_def in_pools_set_had_v)
  have p: "filter (in_preferred M m) (map ?h xs) = map ?h (filter (in_preferred M m) xs)" for M m xs
    by (induction xs) (simp_all add: variant_candidate_def in_pools_set_had_v)
  have f: "filter (in_fallback M m) (map ?h xs) = map ?h (filter (in_fallback M m) xs)" for M m xs
    by (induction xs) (simp_all add: variant_candidate_def in_pools_set_had_v)
  have l: "last (sort_key ?k (map ?h xs)) = ?h (last (sort_key ?k xs))" if "xs \<noteq> []" for xs
    using that sort_key_map [of ?k ?h xs, OF k] by (simp add: last_map sort_key_not_Nil)
  show ?thesis
    unfolding choose_from_def p f
    by (simp add: Let_def l k) (simp add: variant_candidate_def)
qed

lemma choose_newer_tag_map:
  assumes "\<And>t. prefix_variant t (g t)"
  shows "choose_newer_tag old (map g tags) =
    (map_option g (fst (choose_newer_tag old tags)), snd (choose_newer_tag old tags))"
  by (simp add: choose_newer_tag_choose_from filter_candidates_map [of g, OF assms] choose_from_map
      split: option.splits)

lemma choose_from_set_had_v: "choose_from (set_had_v f v) cs = choose_from v cs"
  by (cases v) (simp add: choose_from_def set_had_v_def Let_def)

lemma choose_newer_tag_old_variant:
  assumes "prefix_variant old old'"
  shows "choose_newer_tag old' tags = choose_newer_tag old tags"
proof (cases "old' = old")
  case False
  with assms obtain d r where o: "old = d # r" "is_digit d" "old' = CHR ''v'' # d # r"
    by (cases old) (auto simp: prefix_variant_def)
  then have "old \<notin> set [''latest'', ''stable'']" "old' \<notin> set [''latest'', ''stable'']"
    by (auto simp: is_digit_def)
  then show ?thesis
    by (simp add: choose_newer_tag_choose_from prefix_variant_suffix [OF assms]
        prefix_variant_parse [OF assms] choose_from_set_had_v split: option.splits)
qed simp

text \<open>
  C10. The fourth component of a parsed version, the leading v, plays no part in
  \<^verbatim>\<open>choose_newer_tag\<close>: for the old tag 1.0 and the candidate list [v1.1] the suggestion is
  v1.1; putting a v before the leading digit of any candidates changes the result only by
  renaming the suggested tag in the same way; and putting a v before the leading digit of
  the old tag does not change the result.
\<close>

theorem had_prefix_unused:
  "choose_newer_tag ''1.0'' [''v1.1''] = (Some ''v1.1'', ''newer version available'') \<and>
   (\<forall>g old tags. (\<forall>t. prefix_variant t (g t)) \<longrightarrow>
      choose_newer_tag old (map g tags) =
        (map_option g (fst (choose_newer_tag old tags)), snd (choose_newer_tag old tags))) \<and>
   (\<forall>old old' tags. prefix_variant old old' \<longrightarrow>
      choose_newer_tag old' tags = choose_newer_tag old tags)"
proof -
  have "choose_newer_tag ''1.0'' [''v1.1''] = (Some ''v1.1'', ''newer version available'')"
    by code_simp
  with choose_newer_tag_map choose_newer_tag_old_variant show ?thesis
    by blast
qed

theorem had_prefix_unused_witness:
  "(\<forall>t. prefix_variant t ((\<lambda>t. if t = ''1.1'' then ''v1.1'' else t) t)) \<and>
   choose_newer_tag ''1.0'' [''0.9'', ''1.1''] = (Some ''1.1'', ''newer version available'') \<and>
   choose_newer_tag ''1.0'' [''0.9'', ''v1.1''] = (Some ''v1.1'', ''newer version available'') \<and>
   prefix_variant ''1.0'' ''v1.0'' \<and>
   choose_newer_tag ''v1.0'' [''0.9'', ''1.1''] = (Some ''1.1'', ''newer version available'')"
proof -
  let ?g = "\<lambda>t. if t = ''1.1'' then ''v1.1'' else t"
  have g: "\<forall>t. prefix_variant t (?g t)"
    by (simp add: prefix_variant_def is_digit_def)
  have v: "prefix_variant ''1.0'' ''v1.0''"
    by (simp add: prefix_variant_def is_digit_def)
  have r: "choose_newer_tag ''1.0'' [''0.9'', ''1.1''] = (Some ''1.1'', ''newer version available'')"
    by code_simp
  from had_prefix_unused
  have gen: "(\<forall>t. prefix_variant t (g t)) \<Longrightarrow>
      choose_newer_tag old (map g tags) =
        (map_option g (fst (choose_newer_tag old tags)), snd (choose_newer_tag old tags))"
    for g old tags
    by simp
  from gen [of ?g "''1.0''" "[''0.9'', ''1.1'']", OF g]
  have "choose_newer_tag ''1.0'' (map ?g [''0.9'', ''1.1'']) =
     (map_option ?g (fst (choose_newer_tag ''1.0'' [''0.9'', ''1.1''])),
      snd (choose_newer_tag ''1.0'' [''0.9'', ''1.1'']))" .
  with r have a: "choose_newer_tag ''1.0'' [''0.9'', ''v1.1''] =
      (Some ''v1.1'', ''newer version available'')"
    by simp
  from had_prefix_unused v
  have "choose_newer_tag ''v1.0'' [''0.9'', ''1.1''] =
      choose_newer_tag ''1.0'' [''0.9'', ''1.1'']"
    by blast
  with r have b: "choose_newer_tag ''v1.0'' [''0.9'', ''1.1''] =
      (Some ''1.1'', ''newer version available'')"
    by simp
  from g r a v b show ?thesis by blast
qed

section \<open>Properties of the entry point\<close>










section \<open>Properties of the whitelist filter\<close>

lemma first_match_None_iff:
  "first_match lib s ps = None \<longleftrightarrow> (\<forall>p \<in> set ps. \<not> fnmatch_fnmatch lib s p)"
  by (induction ps) (auto simp: matches_pattern_def)

text \<open>
  C4. For every file path and service: if the path relative to the volume root matches an
  exclude pattern of the service's rule, \<^verbatim>\<open>should_include_file\<close> returns False, whatever
  include patterns it matches; if it matches no pattern at all, the result is False as
  well; the result is True exactly when no exclude pattern and some include pattern matches.
\<close>

theorem exclude_takes_precedence:
  assumes "relative_to lib file_path volume_root = Inr rel"
  shows "((\<exists>p \<in> set (rule_patterns self service ''exclude''). fnmatch_fnmatch lib (path_str lib rel) p) \<longrightarrow>
      should_include_file lib self file_path service volume_root = Inr False) \<and>
    ((\<forall>p \<in> set (rule_patterns self service ''exclude'') \<union> set (rule_patterns self service ''include'').
        \<not> fnmatch_fnmatch lib (path_str lib rel) p) \<longrightarrow>
      should_include_file lib self file_path service volume_root = Inr False) \<and>
    (should_include_file lib self file_path service volume_root = Inr True \<longleftrightarrow>
      (\<forall>p \<in> set (rule_patterns self service ''exclude''). \<not> fnmatch_fnmatch lib (path_str lib rel) p) \<and>
      (\<exists>p \<in> set (rule_patterns self service ''include''). fnmatch_fnmatch lib (path_str lib rel) p))"
proof -
  let ?s = "path_str lib rel"
  let ?ex = "rule_patterns self service ''exclude''"
  let ?in = "rule_patterns self service ''include''"
  have r: "should_include_file lib self file_path service volume_root =
    (case first_match lib ?s ?ex of
       Some pattern \<Rightarrow> Inr False
     | None \<Rightarrow> (case first_match lib ?s ?in of Some pattern \<Rightarrow> Inr True | None \<Rightarrow> Inr False))"
    unfolding should_include_file_def rule_patterns_def Let_def using assms by simp
  show ?thesis
  proof (cases "first_match lib ?s ?ex")
    case None
    then have ex: "\<forall>p \<in> set ?ex. \<not> fnmatch_fnmatch lib ?s p"
      by (simp add: first_match_None_iff)
    show ?thesis
    proof (cases "first_match lib ?s ?in")
      case inNone: None
      then have "\<forall>p \<in> set ?in. \<not> fnmatch_fnmatch lib ?s p"
        by (simp add: first_match_None_iff)
      moreover from r None inNone
      have "should_include_file lib self file_path service volume_root = Inr False"
        by simp
      ultimately show ?thesis
        using ex by auto
    next
      case (Some p)
      then have "\<exists>p \<in> set ?in. fnmatch_fnmatch lib ?s p"
        using first_match_None_iff [of lib ?s ?in] by auto
      moreover from r None Some
      have "should_include_file lib self file_path service volume_root = Inr True"
        by simp
      ultimately show ?thesis
        using ex by auto
    qed
  next
    case (Some p)
    then have "\<exists>p \<in> set ?ex. fnmatch_fnmatch lib ?s p"
      using first_match_None_iff [of lib ?s ?ex] by auto
    moreover from r Some
    have "should_include_file lib self file_path service volume_root = Inr False"
      by simp
    ultimately show ?thesis
      by auto
  qed
qed

theorem exclude_takes_precedence_witness:
  "relative_to example_library ''/vol/flows_cred.json'' ''/vol'' = Inr ''flows_cred.json'' \<and>
   (\<exists>p \<in> set (rule_patterns example_sync ''node-red'' ''exclude'').
      fnmatch_fnmatch example_library ''flows_cred.json'' p) \<and>
   (\<exists>p \<in> set (rule_patterns example_sync ''node-red'' ''include'').
      fnmatch_fnmatch example_library ''flows_cred.json'' p) \<and>
   should_include_file example_library example_sync ''/vol/flows_cred.json'' ''node-red'' ''/vol'' = Inr False \<and>
   should_include_file example_library example_sync ''/vol/flows_cred.json'' ''zwave-js-ui'' ''/vol'' = Inr False \<and>
   should_include_file example_library example_sync ''/vol/flows.json'' ''node-red'' ''/vol'' = Inr True"
proof -
  have rel: "relative_to example_library ''/vol/flows_cred.json'' ''/vol'' = Inr ''flows_cred.json''"
    by (simp add: example_library_def)
  have ex: "\<exists>p \<in> set (rule_patterns example_sync ''node-red'' ''exclude'').
      fnmatch_fnmatch example_library (path_str example_library ''flows_cred.json'') p"
    by (simp add: example_library_def example_sync_def rule_patterns_def dict_get_def)
  have inc: "\<exists>p \<in> set (rule_patterns example_sync ''node-red'' ''include'').
      fnmatch_fnmatch example_library ''flows_cred.json'' p"
    by (simp add: example_library_def example_sync_def rule_patterns_def dict_get_def)
  have none: "\<forall>p \<in> set (rule_patterns example_sync ''zwave-js-ui'' ''exclude'') \<union>
        set (rule_patterns example_sync ''zwave-js-ui'' ''include'').
      \<not> fnmatch_fnmatch example_library (path_str example_library ''flows_cred.json'') p"
    by (simp add: example_sync_def rule_patterns_def dict_get_def)
  from exclude_takes_precedence [OF rel, of example_sync "''node-red''"] ex
  have a: "should_include_file example_library example_sync ''/vol/flows_cred.json'' ''node-red'' ''/vol'' = Inr False"
    by blast
  from exclude_takes_precedence [OF rel, of example_sync "''zwave-js-ui''"] none
  have b: "should_include_file example_library example_sync ''/vol/flows_cred.json'' ''zwave-js-ui'' ''/vol'' = Inr False"
    by blast
  have c: "should_include_file example_library example_sync ''/vol/flows.json'' ''node-red'' ''/vol'' = Inr True"
    by (simp add: should_include_file_def example_library_def example_sync_def dict_get_def
        matches_pattern_def)
  from rel ex inc a b c show ?thesis
    by (simp add: example_library_def)
qed

end
